theory Spec2Isabelle
  imports Main "HOL-Library.Multiset"
begin

section \<open>The hosting page\<close>

text \<open>
  \<^verbatim>\<open>static/script.js\<close> runs inside a browser page. The page is the state the script reads
  and writes: the element objects, the document that holds some of them, the listeners
  registered on the document, the pending timers and the clock of the event loop.

  An element object is reached through a handle. The script only looks at two things of an
  element: its class tokens (the selector \<^verbatim>\<open>.flash\<close>) and its inline style declaration
  (\<^verbatim>\<open>f.style.opacity\<close>). An inline style maps a property name to its serialised value;
  a property that was never set is absent.
\<close>

type_synonym node = nat

record element =
  classList :: "string list"
  style :: "string \<rightharpoonup> string"

text \<open>
  The two arrow functions of the script, as data. \<open>FadeOut f\<close> is the closure
  \<^verbatim>\<open>() => { f.style.opacity = 0; }\<close> with its captured element \<open>f\<close>;
  \<open>FadeFlashes\<close> is the listener passed to \<^verbatim>\<open>addEventListener\<close>.
\<close>

datatype callback = FadeOut node

datatype listener = FadeFlashes

datatype error = TypeError

record timer =
  due :: nat
  action :: callback

text \<open>
  \<open>heap\<close> holds every element object, attached or not; \<open>document\<close> lists the handles of the
  attached elements in tree order. \<open>uncaught\<close> is the report of exceptions that escaped a
  task of the event loop. \<open>storage\<close> and \<open>network\<close> stand for the page's persistent storage
  and for the requests it has sent.
\<close>

record page =
  heap :: "node \<rightharpoonup> element"
  document :: "node list"
  listeners :: "(string \<times> listener) list"
  timers :: "timer list"
  clock :: nat
  uncaught :: "error list"
  storage :: "string \<rightharpoonup> string"
  network :: "string list"

subsection \<open>The browser interfaces the script calls\<close>

datatype selector = ClassSelector string

fun matches :: "selector \<Rightarrow> page \<Rightarrow> node \<Rightarrow> bool" where
  "matches (ClassSelector c) p n =
     (case heap p n of None \<Rightarrow> False | Some e \<Rightarrow> c \<in> set (classList e))"

text \<open>\<^verbatim>\<open>document.querySelectorAll\<close> returns a static list: the matches at the time of the call.\<close>

definition querySelectorAll :: "selector \<Rightarrow> page \<Rightarrow> node list" where
  "querySelectorAll sel p = filter (matches sel p) (document p)"

definition forEach :: "('a \<Rightarrow> 's \<Rightarrow> 's) \<Rightarrow> 'a list \<Rightarrow> 's \<Rightarrow> 's" where
  "forEach g xs = fold g xs"

definition setTimeout :: "callback \<Rightarrow> nat \<Rightarrow> page \<Rightarrow> page" where
  "setTimeout cb delay p =
     p\<lparr>timers := timers p @ [\<lparr>due = clock p + delay, action = cb\<rparr>]\<rparr>"

definition addEventListener :: "string \<Rightarrow> listener \<Rightarrow> page \<Rightarrow> page" where
  "addEventListener ev l p = p\<lparr>listeners := listeners p @ [(ev, l)]\<rparr>"

subsection \<open>The script\<close>

text \<open>
  \<^verbatim>\<open>f.style.opacity = 0\<close>: the number is stored as the string \<^verbatim>\<open>"0"\<close>. The write goes to
  the element object, whether or not the element is still in the document. A handle without
  an object has no \<^verbatim>\<open>style\<close> to write to, which in JavaScript is a \<^verbatim>\<open>TypeError\<close>.
\<close>

definition faded :: "element \<Rightarrow> element" where
  "faded e = e\<lparr>style := (style e)(''opacity'' \<mapsto> ''0'')\<rparr>"

definition fade :: "node \<Rightarrow> page \<Rightarrow> error + page" where
  "fade f p =
     (case heap p f of
        None \<Rightarrow> Inl TypeError
      | Some e \<Rightarrow> Inr (p\<lparr>heap := (heap p)(f \<mapsto> faded e)\<rparr>))"

fun call :: "callback \<Rightarrow> page \<Rightarrow> error + page" where
  "call (FadeOut f) p = fade f p"

text \<open>
  The listener:
  \<^verbatim>\<open>const flashes = document.querySelectorAll(".flash");
  flashes.forEach(f => { setTimeout(() => { f.style.opacity = 0; }, 3000); });\<close>
\<close>

definition on_DOMContentLoaded :: "page \<Rightarrow> page" where
  "on_DOMContentLoaded p =
     forEach (\<lambda>f. setTimeout (FadeOut f) 3000) (querySelectorAll (ClassSelector ''flash'') p) p"

text \<open>The top level of the script: \<^verbatim>\<open>document.addEventListener("DOMContentLoaded", ...)\<close>.\<close>

definition script :: "page \<Rightarrow> page" where
  "script p = addEventListener ''DOMContentLoaded'' FadeFlashes p"

subsection \<open>The event loop\<close>

fun invoke :: "listener \<Rightarrow> page \<Rightarrow> page" where
  "invoke FadeFlashes p = on_DOMContentLoaded p"

text \<open>Dispatching an event calls the listeners registered for it, in registration order.\<close>

definition dispatchEvent :: "string \<Rightarrow> page \<Rightarrow> page" where
  "dispatchEvent ev p = fold invoke (map snd (filter (\<lambda>l. fst l = ev) (listeners p))) p"

text \<open>
  A timer task runs its callback; an exception that escapes the callback is reported and the
  loop goes on with the next task.
\<close>

definition run_timer :: "timer \<Rightarrow> page \<Rightarrow> page" where
  "run_timer tm p =
     (case call (action tm) p of
        Inl e \<Rightarrow> p\<lparr>uncaught := uncaught p @ [e]\<rparr>
      | Inr p' \<Rightarrow> p')"

text \<open>
  Letting \<open>d\<close> milliseconds pass: the timers that are due by then run, earliest first and in
  registration order among equals, and leave the queue. The callbacks of this script set no
  timers, so one pass over the queue is the whole of it.
\<close>

definition elapse :: "nat \<Rightarrow> page \<Rightarrow> page" where
  "elapse d p =
     (let t = clock p + d in
      fold run_timer (sort_key due (filter (\<lambda>tm. due tm \<le> t) (timers p)))
        (p\<lparr>timers := filter (\<lambda>tm. \<not> due tm \<le> t) (timers p), clock := t\<rparr>))"

text \<open>
  Loading the page: the browser runs the script, then announces once that the document
  structure is complete.
\<close>

definition load :: "page \<Rightarrow> page" where
  "load p = dispatchEvent ''DOMContentLoaded'' (script p)"

subsection \<open>What else happens on the page\<close>

text \<open>
  The rest of the page can detach and attach elements and change their classes while the
  timers are pending. Detaching an element takes it out of the document and leaves the
  object alone; \<^verbatim>\<open>appendChild\<close> moves an element that is already attached.
\<close>

definition removeChild :: "node \<Rightarrow> page \<Rightarrow> page" where
  "removeChild n p = p\<lparr>document := removeAll n (document p)\<rparr>"

definition appendChild :: "node \<Rightarrow> page \<Rightarrow> page" where
  "appendChild n p = p\<lparr>document := removeAll n (document p) @ [n]\<rparr>"

definition classList_add :: "node \<Rightarrow> string \<Rightarrow> page \<Rightarrow> page" where
  "classList_add n c p =
     (case heap p n of
        None \<Rightarrow> p
      | Some e \<Rightarrow>
          p\<lparr>heap := (heap p)(n \<mapsto>
               e\<lparr>classList := (if c \<in> set (classList e) then classList e
                                else classList e @ [c])\<rparr>)\<rparr>)"

definition classList_remove :: "node \<Rightarrow> string \<Rightarrow> page \<Rightarrow> page" where
  "classList_remove n c p =
     (case heap p n of
        None \<Rightarrow> p
      | Some e \<Rightarrow> p\<lparr>heap := (heap p)(n \<mapsto> e\<lparr>classList := removeAll c (classList e)\<rparr>)\<rparr>)"

datatype step =
    Elapse nat
  | Dispatch string
  | RemoveChild node
  | AppendChild node
  | ClassListAdd node string
  | ClassListRemove node string

fun host_step :: "step \<Rightarrow> page \<Rightarrow> page" where
  "host_step (Elapse d) p = elapse d p"
| "host_step (Dispatch ev) p = dispatchEvent ev p"
| "host_step (RemoveChild n) p = removeChild n p"
| "host_step (AppendChild n) p = appendChild n p"
| "host_step (ClassListAdd n c) p = classList_add n c p"
| "host_step (ClassListRemove n c) p = classList_remove n c p"

definition run :: "step list \<Rightarrow> page \<Rightarrow> page" where
  "run tr p = fold host_step tr p"

fun elapsed :: "step list \<Rightarrow> nat" where
  "elapsed [] = 0"
| "elapsed (Elapse d # tr) = d + elapsed tr"
| "elapsed (_ # tr) = elapsed tr"

subsection \<open>Observations\<close>

text \<open>\<^verbatim>\<open>f.style.opacity\<close> read back; \<open>None\<close> when the element has no inline opacity.\<close>

definition opacity :: "page \<Rightarrow> node \<Rightarrow> string option" where
  "opacity p n = (case heap p n of None \<Rightarrow> None | Some e \<Rightarrow> style e ''opacity'')"

fun target :: "callback \<Rightarrow> node" where
  "target (FadeOut f) = f"

definition flashes :: "page \<Rightarrow> node list" where
  "flashes p = querySelectorAll (ClassSelector ''flash'') p"

definition style_of :: "page \<Rightarrow> node \<Rightarrow> (string \<rightharpoonup> string) option" where
  "style_of p n = map_option style (heap p n)"

text \<open>The timers the listener sets for a list of elements, on a page whose clock reads \<open>t\<close>.\<close>

definition fade_timers :: "nat \<Rightarrow> node list \<Rightarrow> timer list" where
  "fade_timers t fs = map (\<lambda>f. \<lparr>due = t + 3000, action = FadeOut f\<rparr>) fs"

subsection \<open>Invariants of the timer queue\<close>

text \<open>
  \<open>fading T f\<close>: the element \<open>f\<close> is already faded, or it exists and a timer that fades it
  is pending, due in the future and no later than \<open>T\<close>.
\<close>

definition fading :: "nat \<Rightarrow> node \<Rightarrow> page \<Rightarrow> bool" where
  "fading T f q \<longleftrightarrow>
     opacity q f = Some ''0'' \<or>
     (heap q f \<noteq> None \<and>
      (\<exists>tm \<in> set (timers q). target (action tm) = f \<and> clock q < due tm \<and> due tm \<le> T))"

text \<open>\<open>not_before T\<close>: no pending timer is due before \<open>T\<close>, nor can a new one be.\<close>

definition not_before :: "nat \<Rightarrow> page \<Rightarrow> bool" where
  "not_before T q \<longleftrightarrow> T \<le> clock q + 3000 \<and> (\<forall>tm \<in> set (timers q). T \<le> due tm)"

text \<open>\<open>safe\<close>: every pending timer holds an element that exists.\<close>

definition safe :: "page \<Rightarrow> bool" where
  "safe q \<longleftrightarrow> (\<forall>tm \<in> set (timers q). heap q (target (action tm)) \<noteq> None)"

text \<open>\<open>untargeted e\<close>: no pending timer holds the element \<open>e\<close>.\<close>

definition untargeted :: "node \<Rightarrow> page \<Rightarrow> bool" where
  "untargeted e q \<longleftrightarrow> (\<forall>tm \<in> set (timers q). target (action tm) \<noteq> e)"

text \<open>
  The scenario of the specification: two elements with class \<^verbatim>\<open>flash\<close> and one without,
  on a page where nothing is pending. A fourth element exists but is not attached.
\<close>

definition example_page :: page where
  "example_page =
     \<lparr>heap = [0 \<mapsto> \<lparr>classList = [''flash'', ''success''], style = Map.empty\<rparr>,
              1 \<mapsto> \<lparr>classList = [''flash''], style = [''color'' \<mapsto> ''red'']\<rparr>,
              2 \<mapsto> \<lparr>classList = [''nav''], style = [''opacity'' \<mapsto> ''0.5'']\<rparr>,
              3 \<mapsto> \<lparr>classList = [''flash''], style = Map.empty\<rparr>],
      document = [0, 1, 2],
      listeners = [],
      timers = [],
      clock = 0,
      uncaught = [],
      storage = Map.empty,
      network = []\<rparr>"

text \<open>The same page with only the third element attached: no flash element in the document.\<close>

definition plain_page :: page where
  "plain_page = example_page\<lparr>document := [2]\<rparr>"

text \<open>The example page met later, by a visitor who has something in storage.\<close>

definition later_page :: page where
  "later_page = example_page\<lparr>clock := 86400000, storage := [''theme'' \<mapsto> ''dark'']\<rparr>"

section \<open>Basic facts\<close>

subsection \<open>The listener and the script\<close>

lemma forEach_setTimeout:
  "forEach (\<lambda>f. setTimeout (FadeOut f) d) fs p =
     p\<lparr>timers := timers p @ map (\<lambda>f. \<lparr>due = clock p + d, action = FadeOut f\<rparr>) fs\<rparr>"
  unfolding forEach_def
  by (induction fs arbitrary: p) (simp_all add: setTimeout_def)

lemma on_DOMContentLoaded_eq:
  "on_DOMContentLoaded p = p\<lparr>timers := timers p @ fade_timers (clock p) (flashes p)\<rparr>"
  by (simp add: on_DOMContentLoaded_def flashes_def forEach_setTimeout fade_timers_def)

lemma flashes_cong:
  "heap q = heap p \<Longrightarrow> document q = document p \<Longrightarrow> flashes q = flashes p"
  by (simp add: flashes_def querySelectorAll_def cong: filter_cong)

lemma flashes_in_heap: "f \<in> set (flashes p) \<Longrightarrow> f \<in> dom (heap p)"
  by (auto simp: flashes_def querySelectorAll_def split: option.splits)

lemma flashes_in_document: "f \<in> set (flashes p) \<Longrightarrow> f \<in> set (document p)"
  by (simp add: flashes_def querySelectorAll_def)

lemma set_fade_timers:
  "tm \<in> set (fade_timers t fs) \<longleftrightarrow> due tm = t + 3000 \<and> target (action tm) \<in> set fs"
proof (cases tm)
  case (fields d a)
  then show ?thesis
    by (cases a) (auto simp: fade_timers_def)
qed

lemma script_fields [simp]:
  "heap (script p) = heap p"
  "document (script p) = document p"
  "listeners (script p) = listeners p @ [(''DOMContentLoaded'', FadeFlashes)]"
  "timers (script p) = timers p"
  "clock (script p) = clock p"
  "uncaught (script p) = uncaught p"
  "storage (script p) = storage p"
  "network (script p) = network p"
  by (simp_all add: script_def addEventListener_def)

lemma fold_invoke:
  "fold invoke ls p =
     p\<lparr>timers := timers p @ concat (replicate (length ls) (fade_timers (clock p) (flashes p)))\<rparr>"
proof (induction ls arbitrary: p)
  case Nil
  show ?case by simp
next
  case (Cons l ls)
  have fl: "flashes (on_DOMContentLoaded p) = flashes p"
    by (rule flashes_cong) (simp_all add: on_DOMContentLoaded_eq)
  show ?case
    by (cases l) (simp add: Cons.IH fl, simp add: on_DOMContentLoaded_eq)
qed

lemma dispatchEvent_eq:
  "dispatchEvent ev p =
     p\<lparr>timers := timers p @
         concat (replicate (length (filter (\<lambda>l. fst l = ev) (listeners p)))
                   (fade_timers (clock p) (flashes p)))\<rparr>"
  by (simp add: dispatchEvent_def fold_invoke)

lemma load_eq:
  assumes "listeners p = []"
  shows "load p = (script p)\<lparr>timers := timers p @ fade_timers (clock p) (flashes p)\<rparr>"
proof -
  have "flashes (script p) = flashes p"
    by (rule flashes_cong) simp_all
  then show ?thesis
    using assms by (simp add: load_def dispatchEvent_eq)
qed

subsection \<open>Timer tasks\<close>

lemma run_timer_fields [simp]:
  "document (run_timer tm p) = document p"
  "listeners (run_timer tm p) = listeners p"
  "timers (run_timer tm p) = timers p"
  "clock (run_timer tm p) = clock p"
  "storage (run_timer tm p) = storage p"
  "network (run_timer tm p) = network p"
  by (cases "action tm"; simp add: run_timer_def fade_def split: option.splits)+

lemma heap_run_timer:
  "heap (run_timer tm p) n =
     (if n = target (action tm) then map_option faded (heap p n) else heap p n)"
  by (cases "action tm") (simp add: run_timer_def fade_def split: option.splits)

lemma uncaught_run_timer:
  "uncaught (run_timer tm p) =
     uncaught p @ (if heap p (target (action tm)) = None then [TypeError] else [])"
  by (cases "action tm") (simp add: run_timer_def fade_def split: option.splits)

lemma faded_idem [simp]: "faded (faded e) = faded e"
  by (simp add: faded_def)

lemma faded_fields [simp]:
  "classList (faded e) = classList e"
  "style (faded e) ''opacity'' = Some ''0''"
  "k \<noteq> ''opacity'' \<Longrightarrow> style (faded e) k = style e k"
  by (simp_all add: faded_def)

lemma fold_run_timer_fields [simp]:
  "document (fold run_timer ts p) = document p"
  "listeners (fold run_timer ts p) = listeners p"
  "timers (fold run_timer ts p) = timers p"
  "clock (fold run_timer ts p) = clock p"
  "storage (fold run_timer ts p) = storage p"
  "network (fold run_timer ts p) = network p"
  by (induction ts arbitrary: p; simp)+

lemma heap_fold_run_timer:
  "heap (fold run_timer ts p) n =
     (if n \<in> (\<lambda>tm. target (action tm)) ` set ts then map_option faded (heap p n)
      else heap p n)"
proof (induction ts arbitrary: p)
  case Nil
  show ?case by simp
next
  case (Cons tm ts)
  show ?case
    by (cases "heap p n") (auto simp: Cons.IH heap_run_timer)
qed

lemma uncaught_fold_run_timer:
  assumes "\<And>tm. tm \<in> set ts \<Longrightarrow> heap p (target (action tm)) \<noteq> None"
  shows "uncaught (fold run_timer ts p) = uncaught p"
  using assms
proof (induction ts arbitrary: p)
  case Nil
  show ?case by simp
next
  case (Cons tm ts)
  have "heap (run_timer tm p) (target (action x)) \<noteq> None" if "x \<in> set ts" for x
    using Cons.prems [of x] that by (auto simp: heap_run_timer)
  then have "uncaught (fold run_timer ts (run_timer tm p)) = uncaught (run_timer tm p)"
    by (rule Cons.IH)
  moreover have "uncaught (run_timer tm p) = uncaught p"
    using Cons.prems [of tm] by (simp add: uncaught_run_timer)
  ultimately show ?case by simp
qed

subsection \<open>Letting time pass\<close>

lemma elapse_fields [simp]:
  "document (elapse d p) = document p"
  "listeners (elapse d p) = listeners p"
  "timers (elapse d p) = filter (\<lambda>tm. \<not> due tm \<le> clock p + d) (timers p)"
  "clock (elapse d p) = clock p + d"
  "storage (elapse d p) = storage p"
  "network (elapse d p) = network p"
  by (simp_all add: elapse_def Let_def)

lemma heap_elapse:
  "heap (elapse d p) n =
     (if \<exists>tm \<in> set (timers p). due tm \<le> clock p + d \<and> target (action tm) = n
      then map_option faded (heap p n) else heap p n)"
  by (auto simp: elapse_def Let_def heap_fold_run_timer)

lemma uncaught_elapse:
  assumes "\<And>tm. tm \<in> set (timers p) \<Longrightarrow> heap p (target (action tm)) \<noteq> None"
  shows "uncaught (elapse d p) = uncaught p"
proof -
  let ?q = "p\<lparr>timers := filter (\<lambda>tm. \<not> due tm \<le> clock p + d) (timers p), clock := clock p + d\<rparr>"
  have "uncaught (fold run_timer (sort_key due (filter (\<lambda>tm. due tm \<le> clock p + d) (timers p))) ?q)
          = uncaught ?q"
    by (rule uncaught_fold_run_timer) (use assms in auto)
  then show ?thesis
    by (simp add: elapse_def Let_def)
qed

subsection \<open>Steps of the page\<close>

lemma dispatchEvent_fields [simp]:
  "heap (dispatchEvent ev p) = heap p"
  "document (dispatchEvent ev p) = document p"
  "listeners (dispatchEvent ev p) = listeners p"
  "clock (dispatchEvent ev p) = clock p"
  "uncaught (dispatchEvent ev p) = uncaught p"
  "storage (dispatchEvent ev p) = storage p"
  "network (dispatchEvent ev p) = network p"
  by (simp_all add: dispatchEvent_eq)

lemma timers_dispatchEvent:
  "tm \<in> set (timers (dispatchEvent ev p)) \<longleftrightarrow>
     tm \<in> set (timers p) \<or>
     (\<exists>l \<in> set (listeners p). fst l = ev) \<and> tm \<in> set (fade_timers (clock p) (flashes p))"
proof -
  have "filter (\<lambda>l. fst l = ev) (listeners p) \<noteq> [] \<longleftrightarrow> (\<exists>l \<in> set (listeners p). fst l = ev)"
    by (simp add: filter_empty_conv)
  then show ?thesis
    by (auto simp: dispatchEvent_eq)
qed

lemma removeChild_fields [simp]:
  "heap (removeChild n p) = heap p"
  "document (removeChild n p) = removeAll n (document p)"
  "listeners (removeChild n p) = listeners p"
  "timers (removeChild n p) = timers p"
  "clock (removeChild n p) = clock p"
  "uncaught (removeChild n p) = uncaught p"
  "storage (removeChild n p) = storage p"
  "network (removeChild n p) = network p"
  by (simp_all add: removeChild_def)

lemma appendChild_fields [simp]:
  "heap (appendChild n p) = heap p"
  "document (appendChild n p) = removeAll n (document p) @ [n]"
  "listeners (appendChild n p) = listeners p"
  "timers (appendChild n p) = timers p"
  "clock (appendChild n p) = clock p"
  "uncaught (appendChild n p) = uncaught p"
  "storage (appendChild n p) = storage p"
  "network (appendChild n p) = network p"
  by (simp_all add: appendChild_def)

lemma classList_add_fields [simp]:
  "document (classList_add n c p) = document p"
  "listeners (classList_add n c p) = listeners p"
  "timers (classList_add n c p) = timers p"
  "clock (classList_add n c p) = clock p"
  "uncaught (classList_add n c p) = uncaught p"
  "storage (classList_add n c p) = storage p"
  "network (classList_add n c p) = network p"
  by (simp_all add: classList_add_def split: option.splits)

lemma classList_remove_fields [simp]:
  "document (classList_remove n c p) = document p"
  "listeners (classList_remove n c p) = listeners p"
  "timers (classList_remove n c p) = timers p"
  "clock (classList_remove n c p) = clock p"
  "uncaught (classList_remove n c p) = uncaught p"
  "storage (classList_remove n c p) = storage p"
  "network (classList_remove n c p) = network p"
  by (simp_all add: classList_remove_def split: option.splits)

lemma style_of_classList_add [simp]: "style_of (classList_add n c p) m = style_of p m"
  by (simp add: style_of_def classList_add_def split: option.splits)

lemma style_of_classList_remove [simp]: "style_of (classList_remove n c p) m = style_of p m"
  by (simp add: style_of_def classList_remove_def split: option.splits)

lemma opacity_style_of: "opacity p n = (case style_of p n of None \<Rightarrow> None | Some st \<Rightarrow> st ''opacity'')"
  by (simp add: opacity_def style_of_def split: option.splits)

lemma heap_None_style_of: "heap p n = None \<longleftrightarrow> style_of p n = None"
  by (simp add: style_of_def)

text \<open>Every step other than the passing of time leaves all inline styles alone.\<close>

lemma style_of_host_step:
  "\<forall>d. s \<noteq> Elapse d \<Longrightarrow> style_of (host_step s p) n = style_of p n"
  by (cases s) (simp_all add: style_of_def [of "dispatchEvent _ _"] style_of_def [of "removeChild _ _"]
      style_of_def [of "appendChild _ _"] style_of_def [of p])

lemma style_of_elapse:
  "style_of (elapse d p) n =
     (if \<exists>tm \<in> set (timers p). due tm \<le> clock p + d \<and> target (action tm) = n
      then map_option (\<lambda>st. st(''opacity'' \<mapsto> ''0'')) (style_of p n) else style_of p n)"
  by (cases "heap p n") (auto simp: style_of_def heap_elapse faded_def)

lemma listeners_host_step [simp]: "listeners (host_step s p) = listeners p"
  by (cases s) simp_all

lemma storage_host_step [simp]: "storage (host_step s p) = storage p"
  by (cases s) simp_all

lemma network_host_step [simp]: "network (host_step s p) = network p"
  by (cases s) simp_all

lemma run_Nil [simp]: "run [] p = p"
  by (simp add: run_def)

lemma run_Cons [simp]: "run (s # tr) p = run tr (host_step s p)"
  by (simp add: run_def)

lemma run_append: "run (tr @ tr') p = run tr' (run tr p)"
  by (simp add: run_def)

lemma elapsed_append: "elapsed (tr @ tr') = elapsed tr + elapsed tr'"
  by (induction tr rule: elapsed.induct) simp_all

lemma clock_host_step: "clock (host_step s p) = clock p + elapsed [s]"
  by (cases s) simp_all

lemma elapsed_Cons: "elapsed (s # tr) = elapsed [s] + elapsed tr"
  by (cases s) simp_all

lemma clock_run: "clock (run tr p) = clock p + elapsed tr"
proof (induction tr arbitrary: p)
  case Nil
  show ?case by simp
next
  case (Cons s tr)
  show ?case
    using elapsed_Cons [of s tr] by (simp add: Cons.IH clock_host_step)
qed

lemma listeners_run [simp]: "listeners (run tr p) = listeners p"
  by (induction tr arbitrary: p) simp_all

lemma storage_run [simp]: "storage (run tr p) = storage p"
  by (induction tr arbitrary: p) simp_all

lemma network_run [simp]: "network (run tr p) = network p"
  by (induction tr arbitrary: p) simp_all

subsection \<open>Timers across steps\<close>

lemma timers_host_step:
  assumes "tm \<in> set (timers (host_step s q))"
  shows "tm \<in> set (timers q) \<or>
         (\<exists>ev. s = Dispatch ev \<and> (\<exists>l \<in> set (listeners q). fst l = ev) \<and>
               tm \<in> set (fade_timers (clock q) (flashes q)))"
  using assms by (cases s) (auto simp: timers_dispatchEvent)

lemma timers_host_step_mono:
  assumes "\<forall>d. s \<noteq> Elapse d" and "tm \<in> set (timers q)"
  shows "tm \<in> set (timers (host_step s q))"
  using assms by (cases s) (auto simp: timers_dispatchEvent)

lemma clock_host_step_same: "\<forall>d. s \<noteq> Elapse d \<Longrightarrow> clock (host_step s q) = clock q"
  by (cases s) simp_all

lemma style_of_None_host_step: "style_of (host_step s q) n = None \<longleftrightarrow> style_of q n = None"
proof (cases "\<exists>d. s = Elapse d")
  case True
  then show ?thesis
    by (auto simp: style_of_elapse split: if_splits)
next
  case False
  then show ?thesis
    by (simp add: style_of_host_step)
qed

lemma heap_None_host_step: "heap (host_step s q) n = None \<longleftrightarrow> heap q n = None"
  by (simp add: heap_None_style_of style_of_None_host_step)

lemma opacity_host_step: "\<forall>d. s \<noteq> Elapse d \<Longrightarrow> opacity (host_step s q) n = opacity q n"
  by (simp add: opacity_style_of style_of_host_step)

lemma opacity_elapse:
  "opacity (elapse d q) n =
     (if heap q n \<noteq> None \<and>
         (\<exists>tm \<in> set (timers q). due tm \<le> clock q + d \<and> target (action tm) = n)
      then Some ''0'' else opacity q n)"
  by (cases "heap q n") (auto simp: opacity_def heap_elapse)

subsection \<open>A pending fade completes\<close>

lemma fading_host_step:
  assumes "fading T f q"
  shows "fading T f (host_step s q)"
proof (cases "\<exists>d. s = Elapse d")
  case False
  then have ne: "\<forall>d. s \<noteq> Elapse d"
    by simp
  show ?thesis
    using assms timers_host_step_mono [OF ne]
    by (auto simp: fading_def opacity_host_step [OF ne] heap_None_host_step
        clock_host_step_same [OF ne])
next
  case True
  then obtain d where s: "s = Elapse d"
    by blast
  from assms consider
      (already) "opacity q f = Some ''0''"
    | (pending) tm where "heap q f \<noteq> None" "tm \<in> set (timers q)" "target (action tm) = f"
        "clock q < due tm" "due tm \<le> T"
    by (auto simp: fading_def)
  then show ?thesis
  proof cases
    case already
    then show ?thesis
      by (simp add: fading_def s opacity_elapse)
  next
    case pending
    show ?thesis
    proof (cases "due tm \<le> clock q + d")
      case True
      with pending have "opacity (elapse d q) f = Some ''0''"
        by (auto simp: opacity_elapse)
      then show ?thesis
        by (simp add: fading_def s)
    next
      case False
      with pending have "tm \<in> set (timers (elapse d q))" "clock (elapse d q) < due tm"
        by simp_all
      moreover have "heap (elapse d q) f \<noteq> None"
        using pending(1) heap_None_host_step [of "Elapse d" q f] by simp
      ultimately show ?thesis
        using pending by (auto simp: fading_def s)
    qed
  qed
qed

lemma fading_run: "fading T f q \<Longrightarrow> fading T f (run tr q)"
  by (induction tr arbitrary: q) (simp_all add: fading_host_step)

lemma fading_done: "fading T f q \<Longrightarrow> T \<le> clock q \<Longrightarrow> opacity q f = Some ''0''"
  by (auto simp: fading_def)

lemma load_fields [simp]:
  "heap (load p) = heap p"
  "document (load p) = document p"
  "listeners (load p) = listeners p @ [(''DOMContentLoaded'', FadeFlashes)]"
  "clock (load p) = clock p"
  "uncaught (load p) = uncaught p"
  "storage (load p) = storage p"
  "network (load p) = network p"
  by (simp_all add: load_def)

lemma flashes_script [simp]: "flashes (script p) = flashes p"
  by (rule flashes_cong) simp_all

lemma timers_load:
  "tm \<in> set (timers (load p)) \<longleftrightarrow>
     tm \<in> set (timers p) \<or> tm \<in> set (fade_timers (clock p) (flashes p))"
  by (auto simp: load_def timers_dispatchEvent)

lemma fading_load:
  assumes "f \<in> set (flashes p)"
  shows "fading (clock p + 3000) f (load p)"
proof -
  let ?tm = "\<lparr>due = clock p + 3000, action = FadeOut f\<rparr>"
  have "?tm \<in> set (timers (load p))"
    using assms by (simp add: timers_load set_fade_timers)
  moreover have "heap (load p) f \<noteq> None"
    using flashes_in_heap [OF assms] by auto
  ultimately show ?thesis
    unfolding fading_def by (intro disjI2 conjI bexI [of _ ?tm]) simp_all
qed

subsection \<open>Nothing fires early\<close>

lemma not_before_host_step:
  assumes "not_before T q" and "clock q + elapsed [s] < T"
  shows "not_before T (host_step s q)" and "style_of (host_step s q) n = style_of q n"
proof -
  have due: "T \<le> due tm" if "tm \<in> set (timers q)" for tm
    using assms(1) that by (simp add: not_before_def)
  have T: "T \<le> clock q + 3000"
    using assms(1) by (simp add: not_before_def)
  show "style_of (host_step s q) n = style_of q n"
  proof (cases "\<exists>d. s = Elapse d")
    case True
    then obtain d where s: "s = Elapse d"
      by blast
    have "\<not> (\<exists>tm \<in> set (timers q). due tm \<le> clock q + d \<and> target (action tm) = n)"
      using due assms(2) by (fastforce simp: s)
    then show ?thesis
      by (auto simp: s style_of_elapse)
  next
    case False
    then show ?thesis
      by (simp add: style_of_host_step)
  qed
  have "T \<le> due tm" if tm: "tm \<in> set (timers (host_step s q))" for tm
    using timers_host_step [OF tm] due T by (auto simp: set_fade_timers)
  moreover have "T \<le> clock (host_step s q) + 3000"
    using T by (simp add: clock_host_step)
  ultimately show "not_before T (host_step s q)"
    by (simp add: not_before_def)
qed

lemma not_before_run:
  assumes "not_before T q" and "clock q + elapsed tr < T"
  shows "style_of (run tr q) n = style_of q n"
  using assms
proof (induction tr arbitrary: q)
  case Nil
  show ?case by simp
next
  case (Cons s tr)
  have lt: "clock q + elapsed [s] < T" and lt': "clock (host_step s q) + elapsed tr < T"
    using Cons.prems(2) elapsed_Cons [of s tr] by (simp_all add: clock_host_step)
  have "style_of (run tr (host_step s q)) n = style_of (host_step s q) n"
    using not_before_host_step(1) [OF Cons.prems(1) lt] lt' by (rule Cons.IH)
  also have "\<dots> = style_of q n"
    using Cons.prems(1) lt by (rule not_before_host_step(2))
  finally show ?case by simp
qed

lemma not_before_load:
  assumes "timers p = []"
  shows "not_before (clock p + 3000) (load p)"
  using assms by (auto simp: not_before_def timers_load set_fade_timers)

subsection \<open>No timer fails\<close>

lemma safe_host_step:
  assumes "safe q"
  shows "safe (host_step s q)" and "uncaught (host_step s q) = uncaught q"
proof -
  have live: "heap q (target (action tm)) \<noteq> None" if "tm \<in> set (timers q)" for tm
    using assms that by (simp add: safe_def)
  have "heap q (target (action tm)) \<noteq> None" if tm: "tm \<in> set (timers (host_step s q))" for tm
    using timers_host_step [OF tm] live flashes_in_heap [of "target (action tm)" q]
    by (auto simp: set_fade_timers)
  then show "safe (host_step s q)"
    by (simp add: safe_def heap_None_host_step)
  show "uncaught (host_step s q) = uncaught q"
  proof (cases s)
    case (Elapse d)
    then show ?thesis
      using live by (simp add: uncaught_elapse)
  qed simp_all
qed

lemma safe_run:
  assumes "safe q"
  shows "uncaught (run tr q) = uncaught q"
  using assms
proof (induction tr arbitrary: q)
  case Nil
  show ?case by simp
next
  case (Cons s tr)
  then show ?case
    by (simp add: safe_host_step)
qed

lemma safe_load:
  assumes "timers p = []"
  shows "safe (load p)"
  using assms
  by (auto simp: safe_def timers_load set_fade_timers dest!: flashes_in_heap)

lemma detached_run:
  assumes "f \<notin> set (document q)" and "AppendChild f \<notin> set tr"
  shows "f \<notin> set (document (run tr q))"
  using assms
proof (induction tr arbitrary: q)
  case Nil
  then show ?case by simp
next
  case (Cons s tr)
  have "f \<notin> set (document (host_step s q))"
    using Cons.prems by (cases s) auto
  then show ?case
    using Cons.prems(2) by (simp add: Cons.IH)
qed

subsection \<open>Elements no timer holds\<close>

lemma timers_host_step_subset:
  assumes "\<forall>l \<in> set (listeners q). fst l = ''DOMContentLoaded''"
    and "s \<noteq> Dispatch ''DOMContentLoaded''"
  shows "set (timers (host_step s q)) \<subseteq> set (timers q)"
proof
  fix tm
  assume "tm \<in> set (timers (host_step s q))"
  from timers_host_step [OF this] assms show "tm \<in> set (timers q)"
    by auto
qed

lemma untargeted_host_step:
  assumes "untargeted e q" and "\<forall>l \<in> set (listeners q). fst l = ''DOMContentLoaded''"
    and "s \<noteq> Dispatch ''DOMContentLoaded''"
  shows "untargeted e (host_step s q)"
    and "style_of (host_step s q) e = style_of q e"
proof -
  show "untargeted e (host_step s q)"
    using assms(1) timers_host_step_subset [OF assms(2,3)] by (auto simp: untargeted_def)
  show "style_of (host_step s q) e = style_of q e"
  proof (cases "\<exists>d. s = Elapse d")
    case True
    then show ?thesis
      using assms(1) by (auto simp: style_of_elapse untargeted_def)
  next
    case False
    then show ?thesis
      by (simp add: style_of_host_step)
  qed
qed

lemma untargeted_run:
  assumes "untargeted e q" and "\<forall>l \<in> set (listeners q). fst l = ''DOMContentLoaded''"
    and "Dispatch ''DOMContentLoaded'' \<notin> set tr"
  shows "untargeted e (run tr q) \<and> style_of (run tr q) e = style_of q e"
  using assms
proof (induction tr arbitrary: q)
  case Nil
  then show ?case by simp
next
  case (Cons s tr)
  have s: "s \<noteq> Dispatch ''DOMContentLoaded''" and tr: "Dispatch ''DOMContentLoaded'' \<notin> set tr"
    using Cons.prems(3) by auto
  note step = untargeted_host_step [OF Cons.prems(1,2) s]
  have "\<forall>l \<in> set (listeners (host_step s q)). fst l = ''DOMContentLoaded''"
    using Cons.prems(2) by simp
  from Cons.IH [OF step(1) this tr] step(2) show ?case
    by auto
qed

lemma untargeted_load:
  assumes "e \<notin> set (flashes p)" and "timers p = []"
  shows "untargeted e (load p)"
  using assms by (auto simp: untargeted_def timers_load set_fade_timers)

subsection \<open>Before and after the delay\<close>

lemma style_of_load [simp]: "style_of (load p) n = style_of p n"
  by (simp add: style_of_def)

lemma opacity_load: "opacity (load p) n = opacity p n"
  by (simp add: opacity_def)

lemma opacity_after_delay:
  assumes "f \<in> set (flashes p)" and "3000 \<le> elapsed tr"
  shows "opacity (run tr (load p)) f = Some ''0''"
proof -
  have "fading (clock p + 3000) f (run tr (load p))"
    using assms(1) by (intro fading_run fading_load)
  moreover have "clock p + 3000 \<le> clock (run tr (load p))"
    using assms(2) by (simp add: clock_run)
  ultimately show ?thesis
    by (rule fading_done)
qed

lemma opacity_before_delay:
  assumes "timers p = []" and "elapsed tr < 3000"
  shows "opacity (run tr (load p)) n = opacity p n"
proof -
  have "clock (load p) + elapsed tr < clock p + 3000"
    using assms(2) by simp
  with not_before_load [OF assms(1)] have "style_of (run tr (load p)) n = style_of (load p) n"
    by (rule not_before_run)
  then show ?thesis
    by (simp add: opacity_style_of)
qed

subsection \<open>No timer is added later\<close>

lemma timers_host_step_length:
  assumes "\<forall>l \<in> set (listeners q). fst l = ''DOMContentLoaded''"
    and "s \<noteq> Dispatch ''DOMContentLoaded''"
  shows "length (timers (host_step s q)) \<le> length (timers q)"
proof (cases s)
  case (Dispatch ev)
  then have "filter (\<lambda>l. fst l = ev) (listeners q) = []"
    using assms by (auto simp: filter_empty_conv)
  then show ?thesis
    by (simp add: Dispatch dispatchEvent_eq)
qed simp_all

lemma timers_run_length:
  assumes "\<forall>l \<in> set (listeners q). fst l = ''DOMContentLoaded''"
    and "Dispatch ''DOMContentLoaded'' \<notin> set tr"
  shows "length (timers (run tr q)) \<le> length (timers q)"
  using assms
proof (induction tr arbitrary: q)
  case Nil
  show ?case by simp
next
  case (Cons s tr)
  have "length (timers (run tr (host_step s q))) \<le> length (timers (host_step s q))"
    using Cons.prems by (intro Cons.IH) simp_all
  also have "\<dots> \<le> length (timers q)"
    using Cons.prems by (intro timers_host_step_length) auto
  finally show ?case by simp
qed

lemma timers_run_subset:
  assumes "\<forall>l \<in> set (listeners q). fst l = ''DOMContentLoaded''"
    and "Dispatch ''DOMContentLoaded'' \<notin> set tr"
  shows "set (timers (run tr q)) \<subseteq> set (timers q)"
  using assms
proof (induction tr arbitrary: q)
  case Nil
  show ?case by simp
next
  case (Cons s tr)
  have s: "s \<noteq> Dispatch ''DOMContentLoaded''"
    using Cons.prems(2) by auto
  have "set (timers (run tr (host_step s q))) \<subseteq> set (timers (host_step s q))"
    using Cons.prems by (intro Cons.IH) simp_all
  also have "\<dots> \<subseteq> set (timers q)"
    using Cons.prems(1) s by (rule timers_host_step_subset)
  finally show ?case by simp
qed

text \<open>
  The listener is registered without \<^verbatim>\<open>once\<close> and stays registered, so the bound on later
  timers rests on the browser announcing the event a single time: a second announcement
  would run the listener again.
\<close>

lemma listener_stays_registered:
  assumes "listeners p = []"
  shows "listeners (run tr (load p)) = [(''DOMContentLoaded'', FadeFlashes)]"
  using assms by simp

lemma second_announcement:
  assumes "listeners p = []"
  shows "timers (dispatchEvent ''DOMContentLoaded'' (load p)) =
     timers (load p) @ fade_timers (clock p) (flashes p)"
proof -
  have "flashes (load p) = flashes p"
    by (rule flashes_cong) simp_all
  then show ?thesis
    using assms by (simp add: dispatchEvent_eq)
qed

subsection \<open>Time passing and nothing else\<close>

lemma document_run_elapses: "document (run (map Elapse ds) q) = document q"
  by (induction ds arbitrary: q) simp_all

lemma map_option_faded_idem: "map_option faded (map_option faded x) = map_option faded x"
  by (cases x) simp_all

lemma heap_run_elapses_untargeted:
  assumes "untargeted n q"
  shows "heap (run (map Elapse ds) q) n = heap q n"
  using assms
proof (induction ds arbitrary: q)
  case Nil
  show ?case by simp
next
  case (Cons d ds)
  have "untargeted n (elapse d q)"
    using Cons.prems by (auto simp: untargeted_def)
  then have "heap (run (map Elapse ds) (elapse d q)) n = heap (elapse d q) n"
    by (rule Cons.IH)
  also have "\<dots> = heap q n"
    using Cons.prems by (auto simp: heap_elapse untargeted_def)
  finally show ?case by simp
qed

lemma heap_run_elapses:
  "heap (run (map Elapse ds) q) n = heap q n \<or>
   heap (run (map Elapse ds) q) n = map_option faded (heap q n)"
proof (induction ds arbitrary: q)
  case Nil
  show ?case by simp
next
  case (Cons d ds)
  have step: "heap (elapse d q) n = heap q n \<or> heap (elapse d q) n = map_option faded (heap q n)"
    by (simp add: heap_elapse)
  from Cons.IH [of "elapse d q"] step show ?case
    by (auto simp: map_option_faded_idem)
qed

lemma style_other_host_step:
  assumes "k \<noteq> ''opacity''"
  shows "map_option (\<lambda>st. st k) (style_of (host_step s q) n) = map_option (\<lambda>st. st k) (style_of q n)"
proof (cases "\<exists>d. s = Elapse d")
  case True
  then show ?thesis
    using assms by (cases "style_of q n") (auto simp: style_of_elapse)
next
  case False
  then show ?thesis
    by (simp add: style_of_host_step)
qed

lemma style_other_run:
  assumes "k \<noteq> ''opacity''"
  shows "map_option (\<lambda>st. st k) (style_of (run tr q) n) = map_option (\<lambda>st. st k) (style_of q n)"
  by (induction tr arbitrary: q) (simp_all add: style_other_host_step [OF assms])

subsection \<open>Timer tasks commute\<close>

lemma run_timer_commute: "run_timer a (run_timer b p) = run_timer b (run_timer a p)"
proof (rule page.equality)
  show "heap (run_timer a (run_timer b p)) = heap (run_timer b (run_timer a p))"
  proof
    fix n
    show "heap (run_timer a (run_timer b p)) n = heap (run_timer b (run_timer a p)) n"
      by (simp add: heap_run_timer)
  qed
  have none: "heap (run_timer x p) n = None \<longleftrightarrow> heap p n = None" for x n
    by (simp add: heap_run_timer)
  show "uncaught (run_timer a (run_timer b p)) = uncaught (run_timer b (run_timer a p))"
    by (simp add: uncaught_run_timer none)
qed simp_all

lemma fold_run_timer_permute:
  assumes "mset ts = mset ts'"
  shows "fold run_timer ts p = fold run_timer ts' p"
proof -
  have "run_timer x \<circ> run_timer y = run_timer y \<circ> run_timer x" for x y
    by (rule ext) (simp add: run_timer_commute)
  then have "fold run_timer ts = fold run_timer ts'"
    using assms by (intro fold_multiset_equiv)
  then show ?thesis by simp
qed

subsection \<open>The page after the load and a wait\<close>

lemma heap_elapse_load:
  assumes "timers p = []"
  shows "heap (elapse d (load p)) n =
     (if n \<in> set (flashes p) \<and> 3000 \<le> d then map_option faded (heap p n) else heap p n)"
proof -
  have "(\<exists>tm \<in> set (timers (load p)). due tm \<le> clock (load p) + d \<and> target (action tm) = n)
      \<longleftrightarrow> n \<in> set (flashes p) \<and> 3000 \<le> d" (is "?l \<longleftrightarrow> ?r")
  proof
    assume ?l
    then show ?r
      using assms by (auto simp: timers_load set_fade_timers)
  next
    assume ?r
    then have "\<lparr>due = clock p + 3000, action = FadeOut n\<rparr> \<in> set (timers (load p))"
      by (simp add: timers_load set_fade_timers)
    with \<open>?r\<close> show ?l
      by (intro bexI [of _ "\<lparr>due = clock p + 3000, action = FadeOut n\<rparr>"]) simp_all
  qed
  then show ?thesis
    by (simp add: heap_elapse)
qed

section \<open>What the listener schedules\<close>

text \<open>
  C2. On a document with \<open>N\<close> elements bearing the class \<^verbatim>\<open>flash\<close>, the listener adds exactly
  \<open>N\<close> timers to the queue and leaves the pending ones in place. The new timers are, position
  by position, one per matched element in document order, each due 3000 ms after the
  trigger; matched elements and new timers are in bijection, and where no element occurs
  twice in the document no timer is set twice and \<open>N\<close> is the number of matched elements.
\<close>

theorem one_timer_per_flash_element:
  "let new = drop (length (timers p)) (timers (on_DOMContentLoaded p));
       fs = querySelectorAll (ClassSelector ''flash'') p;
       mk = (\<lambda>f. \<lparr>due = clock p + 3000, action = FadeOut f\<rparr>)
   in take (length (timers p)) (timers (on_DOMContentLoaded p)) = timers p \<and>
      new = map mk fs \<and>
      length new = length (filter (matches (ClassSelector ''flash'') p) (document p)) \<and>
      bij_betw mk (set fs) (set new) \<and>
      (distinct (document p) \<longrightarrow>
         distinct new \<and>
         length new = card {n \<in> set (document p). matches (ClassSelector ''flash'') p n})"
proof -
  let ?mk = "\<lambda>f. \<lparr>due = clock p + 3000, action = FadeOut f\<rparr>"
  let ?fs = "querySelectorAll (ClassSelector ''flash'') p"
  have tm: "timers (on_DOMContentLoaded p) = timers p @ map ?mk ?fs"
    by (simp add: on_DOMContentLoaded_eq fade_timers_def flashes_def)
  have inj: "inj_on ?mk A" for A
    by (rule inj_onI) simp
  have bij: "bij_betw ?mk (set ?fs) (set (map ?mk ?fs))"
    using inj [of "set ?fs"] by (simp add: bij_betw_def)
  have len: "length (map ?mk ?fs) = length (filter (matches (ClassSelector ''flash'') p) (document p))"
    by (simp add: querySelectorAll_def)
  have dist: "distinct (map ?mk ?fs) \<and>
      length (map ?mk ?fs) = card {n \<in> set (document p). matches (ClassSelector ''flash'') p n}"
    if d: "distinct (document p)"
  proof
    have dfs: "distinct ?fs"
      using d by (simp add: querySelectorAll_def)
    then show "distinct (map ?mk ?fs)"
      using inj [of "set ?fs"] by (simp add: distinct_map)
    have "card (set ?fs) = length ?fs"
      using dfs by (rule distinct_card)
    moreover have "set ?fs = {n \<in> set (document p). matches (ClassSelector ''flash'') p n}"
      by (simp add: querySelectorAll_def)
    ultimately show "length (map ?mk ?fs) =
        card {n \<in> set (document p). matches (ClassSelector ''flash'') p n}"
      by simp
  qed
  show ?thesis
    unfolding Let_def tm using bij len dist by simp
qed

theorem one_timer_per_flash_element_witness:
  "distinct (document example_page) \<and>
   timers (on_DOMContentLoaded example_page) =
     [\<lparr>due = 3000, action = FadeOut 0\<rparr>, \<lparr>due = 3000, action = FadeOut 1\<rparr>] \<and>
   card {n \<in> set (document example_page). matches (ClassSelector ''flash'') example_page n} = 2"
proof -
  have d: "distinct (document example_page)"
    by (simp add: example_page_def)
  have q: "querySelectorAll (ClassSelector ''flash'') example_page = [0, 1]"
    by (simp add: querySelectorAll_def example_page_def)
  have t: "timers example_page = []" "clock example_page = 0"
    by (simp_all add: example_page_def)
  have "drop (length (timers example_page)) (timers (on_DOMContentLoaded example_page)) =
      map (\<lambda>f. \<lparr>due = clock example_page + 3000, action = FadeOut f\<rparr>)
        (querySelectorAll (ClassSelector ''flash'') example_page)"
    and "distinct (document example_page) \<longrightarrow>
      distinct (drop (length (timers example_page)) (timers (on_DOMContentLoaded example_page))) \<and>
      length (drop (length (timers example_page)) (timers (on_DOMContentLoaded example_page))) =
      card {n \<in> set (document example_page). matches (ClassSelector ''flash'') example_page n}"
    using one_timer_per_flash_element [of example_page] unfolding Let_def by blast+
  with d have new: "timers (on_DOMContentLoaded example_page) =
      [\<lparr>due = 3000, action = FadeOut 0\<rparr>, \<lparr>due = 3000, action = FadeOut 1\<rparr>]"
    and n: "length (timers (on_DOMContentLoaded example_page)) =
      card {n \<in> set (document example_page). matches (ClassSelector ''flash'') example_page n}"
    by (simp_all add: q t)
  from n have "card {n \<in> set (document example_page).
      matches (ClassSelector ''flash'') example_page n} = 2"
    unfolding new by simp
  with d new show ?thesis
    by simp
qed

text \<open>
  C4. On a document with no element bearing the class \<^verbatim>\<open>flash\<close> the listener changes
  nothing at all: no timer is set, no element is written to, nothing is reported as an
  uncaught exception.
\<close>

theorem no_flash_no_action:
  assumes "\<forall>n \<in> set (document p). \<not> matches (ClassSelector ''flash'') p n"
  shows "querySelectorAll (ClassSelector ''flash'') p = [] \<and>
         on_DOMContentLoaded p = p \<and>
         timers (on_DOMContentLoaded p) = timers p \<and>
         heap (on_DOMContentLoaded p) = heap p \<and>
         uncaught (on_DOMContentLoaded p) = uncaught p"
proof -
  have "querySelectorAll (ClassSelector ''flash'') p = []"
    using assms by (simp add: querySelectorAll_def filter_empty_conv)
  then show ?thesis
    by (simp add: on_DOMContentLoaded_eq flashes_def fade_timers_def)
qed

theorem no_flash_no_action_witness:
  "document plain_page = [2] \<and>
   \<not> matches (ClassSelector ''flash'') plain_page 2 \<and>
   on_DOMContentLoaded plain_page = plain_page \<and>
   timers (on_DOMContentLoaded plain_page) = []"
proof -
  have d: "document plain_page = [2]" and t: "timers plain_page = []"
    by (simp_all add: plain_page_def example_page_def)
  have m: "\<not> matches (ClassSelector ''flash'') plain_page 2"
    by (simp add: plain_page_def example_page_def)
  have h: "\<forall>n \<in> set (document plain_page). \<not> matches (ClassSelector ''flash'') plain_page n"
    using m by (simp add: d)
  from no_flash_no_action [OF h] d m t show ?thesis
    by simp
qed

section \<open>The fade\<close>

text \<open>
  C1. Every element that bears the class \<^verbatim>\<open>flash\<close> and is in the document when the page
  loads has inline opacity \<^verbatim>\<open>0\<close> once 3000 ms have passed, and keeps it: whatever the page
  does in between and afterwards (detaching and attaching elements, changing classes,
  dispatching events), after any run of steps during which at least 3000 ms pass the
  element's opacity reads \<^verbatim>\<open>0\<close>.
\<close>

theorem flash_faded_after_delay:
  assumes "f \<in> set (querySelectorAll (ClassSelector ''flash'') p)"
    and "3000 \<le> elapsed tr"
  shows "opacity (run tr (load p)) f = Some ''0''"
  using assms by (simp add: opacity_after_delay flashes_def)

theorem flash_faded_after_delay_witness:
  "opacity (run [Elapse 3000] (load example_page)) 0 = Some ''0'' \<and>
   opacity (run [Elapse 1000, ClassListRemove 1 ''flash'', Elapse 2500] (load example_page)) 1
     = Some ''0''"
proof -
  have q: "querySelectorAll (ClassSelector ''flash'') example_page = [0, 1]"
    by (simp add: querySelectorAll_def example_page_def)
  have "opacity (run [Elapse 3000] (load example_page)) 0 = Some ''0''"
    by (rule flash_faded_after_delay) (simp_all add: q)
  moreover
  have "opacity (run [Elapse 1000, ClassListRemove 1 ''flash'', Elapse 2500] (load example_page)) 1
      = Some ''0''"
    by (rule flash_faded_after_delay) (simp_all add: q)
  ultimately show ?thesis
    by simp
qed

text \<open>
  C6. Before 3000 ms have passed since the page loaded, no inline opacity has been written:
  right after the trigger, and after any run of steps during which fewer than 3000 ms pass,
  every element's opacity reads what it read before the page loaded. This holds on a page
  with no timers pending when it loads.
\<close>

theorem opacity_untouched_before_delay:
  assumes "timers p = []" and "elapsed tr < 3000"
  shows "opacity (load p) f = opacity p f \<and> opacity (run tr (load p)) f = opacity p f"
  using assms by (simp add: opacity_before_delay opacity_load)

theorem opacity_untouched_before_delay_witness:
  "opacity (load example_page) 0 = None \<and>
   opacity (run [Elapse 2999] (load example_page)) 0 = None \<and>
   opacity (run [Elapse 1000, Dispatch ''click'', Elapse 1999] (load example_page)) 1 = None"
proof -
  have t: "timers example_page = []"
    by (simp add: example_page_def)
  have o: "opacity example_page 0 = None" "opacity example_page 1 = None"
    by (simp_all add: opacity_def example_page_def)
  have "elapsed [Elapse 2999] < 3000"
    and "elapsed [Elapse 1000, Dispatch ''click'', Elapse 1999] < 3000"
    by simp_all
  then show ?thesis
    using opacity_untouched_before_delay [OF t, of "[Elapse 2999]" 0]
      opacity_untouched_before_delay
        [OF t, of "[Elapse 1000, Dispatch ''click'', Elapse 1999]" 1]
    unfolding o by blast
qed

text \<open>
  C5. A flash element that is taken out of the document before its 3000 ms are over: when
  it is taken out its opacity has not been written yet; the timer that fires later writes
  \<^verbatim>\<open>0\<close> to the detached element and no exception escapes, at that point or at any other;
  and unless the page attaches the element again it stays out of the document.
\<close>

theorem removed_flash_fades_without_error:
  assumes "f \<in> set (querySelectorAll (ClassSelector ''flash'') p)"
    and "timers p = []"
    and "elapsed tr1 < 3000"
    and "3000 \<le> elapsed tr1 + elapsed tr2"
  shows "opacity (run tr1 (load p)) f = opacity p f \<and>
         uncaught (run (tr1 @ RemoveChild f # tr2) (load p)) = uncaught p \<and>
         opacity (run (tr1 @ RemoveChild f # tr2) (load p)) f = Some ''0'' \<and>
         (AppendChild f \<notin> set tr2 \<longrightarrow>
            f \<notin> set (document (run (tr1 @ RemoveChild f # tr2) (load p))))"
proof (intro conjI impI)
  show "opacity (run tr1 (load p)) f = opacity p f"
    using assms(2,3) by (rule opacity_before_delay)
  have "uncaught (run (tr1 @ RemoveChild f # tr2) (load p)) = uncaught (load p)"
    using assms(2) by (intro safe_run safe_load)
  then show "uncaught (run (tr1 @ RemoveChild f # tr2) (load p)) = uncaught p"
    by simp
  have "3000 \<le> elapsed (tr1 @ RemoveChild f # tr2)"
    using assms(4) by (simp add: elapsed_append)
  moreover have "f \<in> set (flashes p)"
    using assms(1) by (simp add: flashes_def)
  ultimately show "opacity (run (tr1 @ RemoveChild f # tr2) (load p)) f = Some ''0''"
    by (simp add: opacity_after_delay)
next
  assume "AppendChild f \<notin> set tr2"
  moreover have "f \<notin> set (document (removeChild f (run tr1 (load p))))"
    by simp
  ultimately have "f \<notin> set (document (run tr2 (removeChild f (run tr1 (load p)))))"
    by (rule detached_run [rotated])
  then show "f \<notin> set (document (run (tr1 @ RemoveChild f # tr2) (load p)))"
    by (simp add: run_append)
qed

theorem removed_flash_fades_without_error_witness:
  "opacity (run [Elapse 1000] (load example_page)) 0 = None \<and>
   uncaught (run ([Elapse 1000] @ RemoveChild 0 # [Elapse 2000]) (load example_page)) = [] \<and>
   opacity (run ([Elapse 1000] @ RemoveChild 0 # [Elapse 2000]) (load example_page)) 0 = Some ''0'' \<and>
   0 \<notin> set (document (run ([Elapse 1000] @ RemoveChild 0 # [Elapse 2000]) (load example_page)))"
proof -
  have q: "0 \<in> set (querySelectorAll (ClassSelector ''flash'') example_page)"
    by (simp add: querySelectorAll_def example_page_def)
  have t: "timers example_page = []"
    by (simp add: example_page_def)
  have e: "elapsed [Elapse 1000] < 3000" "3000 \<le> elapsed [Elapse 1000] + elapsed [Elapse 2000]"
    by simp_all
  have o: "opacity example_page 0 = None" "uncaught example_page = []"
    by (simp_all add: opacity_def example_page_def)
  have a: "AppendChild 0 \<notin> set [Elapse 2000]"
    by simp
  from removed_flash_fades_without_error [OF q t e] a show ?thesis
    unfolding o by blast
qed

section \<open>The trigger\<close>



text \<open>
  C7, amended. The script registers one listener, for \<^verbatim>\<open>DOMContentLoaded\<close> and for
  nothing else, and registering does nothing yet. On a page where no listener was registered
  before the script ran, the browser's announcement of that event at the end of the load
  runs the listener exactly once: the page after the load is the page after one run of the
  listener, with one timer per flash element. No other event runs it, and as long as
  \<^verbatim>\<open>DOMContentLoaded\<close> is not dispatched again, nothing that happens later (time passing,
  timers firing, other events, changes to the document) adds a timer. The script itself
  does nothing to keep a further dispatch from running the listener again.
\<close>

theorem fade_triggered_once:
  assumes "listeners p = []"
  shows "timers (script p) = timers p \<and> heap (script p) = heap p \<and>
         listeners (script p) = [(''DOMContentLoaded'', FadeFlashes)] \<and>
         load p = on_DOMContentLoaded (script p) \<and>
         length (timers (load p)) =
           length (timers p) + length (querySelectorAll (ClassSelector ''flash'') p) \<and>
         (ev \<noteq> ''DOMContentLoaded'' \<longrightarrow> dispatchEvent ev (script p) = script p) \<and>
         (Dispatch ''DOMContentLoaded'' \<notin> set tr \<longrightarrow>
            set (timers (run tr (load p))) \<subseteq> set (timers (load p)) \<and>
            length (timers (run tr (load p))) \<le> length (timers (load p)))"
proof -
  have once: "load p = on_DOMContentLoaded (script p)"
    using assms by (simp add: load_eq on_DOMContentLoaded_eq)
  have len: "length (timers (load p)) =
      length (timers p) + length (querySelectorAll (ClassSelector ''flash'') p)"
    using assms by (simp add: load_eq fade_timers_def flashes_def)
  have other: "dispatchEvent ev (script p) = script p" if "ev \<noteq> ''DOMContentLoaded''"
    using assms that by (simp add: dispatchEvent_eq)
  have later: "set (timers (run tr (load p))) \<subseteq> set (timers (load p)) \<and>
      length (timers (run tr (load p))) \<le> length (timers (load p))"
    if "Dispatch ''DOMContentLoaded'' \<notin> set tr"
    using assms that by (intro conjI timers_run_subset timers_run_length) simp_all
  show ?thesis
    using assms once len other later by simp
qed

theorem fade_triggered_once_witness:
  "load example_page = on_DOMContentLoaded (script example_page) \<and>
   length (timers (load example_page)) = 2 \<and>
   dispatchEvent ''load'' (script example_page) = script example_page \<and>
   length (timers (run [Elapse 100, Dispatch ''load'', Dispatch ''click''] (load example_page)))
     \<le> length (timers (load example_page))"
proof -
  have l: "listeners example_page = []" and t: "timers example_page = []"
    by (simp_all add: example_page_def)
  have q: "querySelectorAll (ClassSelector ''flash'') example_page = [0, 1]"
    by (simp add: querySelectorAll_def example_page_def)
  have ev: "''load'' \<noteq> ''DOMContentLoaded''"
    by simp
  have tr: "Dispatch ''DOMContentLoaded'' \<notin> set [Elapse 100, Dispatch ''load'', Dispatch ''click'']"
    by simp
  from fade_triggered_once
    [OF l, of "''load''" "[Elapse 100, Dispatch ''load'', Dispatch ''click'']"] ev tr
  have once: "load example_page = on_DOMContentLoaded (script example_page)"
    and len: "length (timers (load example_page)) =
      length (timers example_page) +
      length (querySelectorAll (ClassSelector ''flash'') example_page)"
    and other: "dispatchEvent ''load'' (script example_page) = script example_page"
    and later: "length (timers (run [Elapse 100, Dispatch ''load'', Dispatch ''click'']
      (load example_page))) \<le> length (timers (load example_page))"
    by blast+
  from len have "length (timers (load example_page)) = 2"
    unfolding q t by simp
  with once other later show ?thesis
    by blast
qed

text \<open>
  That the fade never triggers a second time does not hold of the script by itself. On the
  example page the load sets two timers; if
  \<^verbatim>\<open>DOMContentLoaded\<close> is dispatched on the document once more, the listener runs again and
  sets two more; and on a page that includes the script twice, a single announcement runs
  two listeners.
\<close>

theorem fade_triggered_once_counterexample:
  "timers (load example_page) =
     [\<lparr>due = 3000, action = FadeOut 0\<rparr>, \<lparr>due = 3000, action = FadeOut 1\<rparr>] \<and>
   timers (run [Dispatch ''DOMContentLoaded''] (load example_page)) =
     [\<lparr>due = 3000, action = FadeOut 0\<rparr>, \<lparr>due = 3000, action = FadeOut 1\<rparr>,
      \<lparr>due = 3000, action = FadeOut 0\<rparr>, \<lparr>due = 3000, action = FadeOut 1\<rparr>] \<and>
   timers (load (script example_page)) =
     [\<lparr>due = 3000, action = FadeOut 0\<rparr>, \<lparr>due = 3000, action = FadeOut 1\<rparr>,
      \<lparr>due = 3000, action = FadeOut 0\<rparr>, \<lparr>due = 3000, action = FadeOut 1\<rparr>]"
proof -
  have l: "listeners example_page = []" and c: "clock example_page = 0"
    and t: "timers example_page = []"
    by (simp_all add: example_page_def)
  have f: "flashes example_page = [0, 1]"
    by (simp add: flashes_def querySelectorAll_def example_page_def)
  have once: "timers (load example_page) =
      [\<lparr>due = 3000, action = FadeOut 0\<rparr>, \<lparr>due = 3000, action = FadeOut 1\<rparr>]"
    by (simp add: load_eq [OF l] f c t fade_timers_def)
  have again: "timers (run [Dispatch ''DOMContentLoaded''] (load example_page)) =
      timers (load example_page) @ fade_timers (clock example_page) (flashes example_page)"
    using second_announcement [OF l] by simp
  have twice: "timers (load (script example_page)) =
      [\<lparr>due = 3000, action = FadeOut 0\<rparr>, \<lparr>due = 3000, action = FadeOut 1\<rparr>,
       \<lparr>due = 3000, action = FadeOut 0\<rparr>, \<lparr>due = 3000, action = FadeOut 1\<rparr>]"
    by (simp add: load_def dispatchEvent_eq l t c f fade_timers_def)
  show ?thesis
    unfolding again once twice by (simp add: f c fade_timers_def)
qed

section \<open>What the script leaves alone\<close>

text \<open>
  C3. The script writes the inline opacity of the elements matched by \<^verbatim>\<open>.flash\<close> and nothing
  else. On a page that starts with no listeners and no timers, and with nothing but time
  passing after the load: an element that was not matched is exactly what it was; a matched
  element keeps its classes and every style property other than opacity; no element appears
  or disappears; the document, the report of uncaught exceptions, the storage and the
  network log are what they were. When the rest of the page acts as well, the storage and
  the network log are still untouched, every style property other than opacity keeps its
  value on every element, and, as long as \<^verbatim>\<open>DOMContentLoaded\<close> is not announced again,
  the whole inline style of an unmatched element keeps its value.
\<close>

theorem only_flash_opacity_written:
  assumes "listeners p = []" and "timers p = []"
  shows "(\<forall>n. n \<notin> set (querySelectorAll (ClassSelector ''flash'') p) \<longrightarrow>
            heap (run (map Elapse ds) (load p)) n = heap p n) \<and>
         (\<forall>n e. heap p n = Some e \<longrightarrow>
            (\<exists>e'. heap (run (map Elapse ds) (load p)) n = Some e' \<and>
                  classList e' = classList e \<and>
                  (\<forall>k. k \<noteq> ''opacity'' \<longrightarrow> style e' k = style e k))) \<and>
         (\<forall>n. heap p n = None \<longrightarrow> heap (run (map Elapse ds) (load p)) n = None) \<and>
         document (run (map Elapse ds) (load p)) = document p \<and>
         uncaught (run (map Elapse ds) (load p)) = uncaught p \<and>
         storage (run tr (load p)) = storage p \<and>
         network (run tr (load p)) = network p \<and>
         (\<forall>n k. k \<noteq> ''opacity'' \<longrightarrow>
            map_option (\<lambda>st. st k) (style_of (run tr (load p)) n) =
            map_option (\<lambda>st. st k) (style_of p n)) \<and>
         (Dispatch ''DOMContentLoaded'' \<notin> set tr \<longrightarrow>
            (\<forall>n. n \<notin> set (querySelectorAll (ClassSelector ''flash'') p) \<longrightarrow>
               style_of (run tr (load p)) n = style_of p n))"
proof -
  let ?q = "run (map Elapse ds) (load p)"
  have unmatched: "heap ?q n = heap p n"
    if "n \<notin> set (querySelectorAll (ClassSelector ''flash'') p)" for n
  proof -
    have "untargeted n (load p)"
      using that assms(2) by (intro untargeted_load) (simp_all add: flashes_def)
    then have "heap ?q n = heap (load p) n"
      by (rule heap_run_elapses_untargeted)
    then show ?thesis by simp
  qed
  have matched: "\<exists>e'. heap ?q n = Some e' \<and> classList e' = classList e \<and>
      (\<forall>k. k \<noteq> ''opacity'' \<longrightarrow> style e' k = style e k)"
    if "heap p n = Some e" for n e
    using heap_run_elapses [of ds "load p" n] that by auto
  have absent: "heap ?q n = None" if "heap p n = None" for n
    using heap_run_elapses [of ds "load p" n] that by auto
  have unc: "uncaught ?q = uncaught p"
    using safe_run [OF safe_load [OF assms(2)], of "map Elapse ds"] by simp
  have other: "map_option (\<lambda>st. st k) (style_of (run tr (load p)) n) =
      map_option (\<lambda>st. st k) (style_of p n)" if "k \<noteq> ''opacity''" for n k
    using style_other_run [OF that, of tr "load p" n] by simp
  have unmatched_style: "style_of (run tr (load p)) n = style_of p n"
    if "Dispatch ''DOMContentLoaded'' \<notin> set tr"
      and "n \<notin> set (querySelectorAll (ClassSelector ''flash'') p)" for n
  proof -
    have "untargeted n (load p)"
      using that(2) assms(2) by (intro untargeted_load) (simp_all add: flashes_def)
    moreover have "\<forall>l \<in> set (listeners (load p)). fst l = ''DOMContentLoaded''"
      using assms(1) by simp
    ultimately have "style_of (run tr (load p)) n = style_of (load p) n"
      using untargeted_run [of n "load p" tr] that(1) by blast
    then show ?thesis by simp
  qed
  show ?thesis
    using unmatched matched absent unc other unmatched_style
    by (simp add: document_run_elapses)
qed

theorem only_flash_opacity_written_witness:
  "heap (run (map Elapse [1000, 2000]) (load example_page)) 2 =
     Some \<lparr>classList = [''nav''], style = [''opacity'' \<mapsto> ''0.5'']\<rparr> \<and>
   document (run (map Elapse [1000, 2000]) (load example_page)) = [0, 1, 2] \<and>
   storage (run [Elapse 3000] (load example_page)) = Map.empty \<and>
   map_option (\<lambda>st. st ''color'') (style_of (run [Elapse 3000] (load example_page)) 1)
     = Some (Some ''red'')"
proof -
  have l: "listeners example_page = []" and t: "timers example_page = []"
    by (simp_all add: example_page_def)
  have q: "querySelectorAll (ClassSelector ''flash'') example_page = [0, 1]"
    by (simp add: querySelectorAll_def example_page_def)
  have h: "heap example_page 2 = Some \<lparr>classList = [''nav''], style = [''opacity'' \<mapsto> ''0.5'']\<rparr>"
    and d: "document example_page = [0, 1, 2]"
    and st: "storage example_page = Map.empty"
    and c: "map_option (\<lambda>st. st ''color'') (style_of example_page 1) = Some (Some ''red'')"
    by (simp_all add: example_page_def style_of_def)
  have n: "2 \<notin> set (querySelectorAll (ClassSelector ''flash'') example_page)"
    and k: "''color'' \<noteq> ''opacity''"
    by (simp_all add: q)
  note T = only_flash_opacity_written [OF l t, of "[1000, 2000]" "[Elapse 3000]"]
  note c2 = conjunct2
  have "heap (run (map Elapse [1000, 2000]) (load example_page)) 2 = heap example_page 2"
    by (rule T [THEN conjunct1, rule_format, OF n])
  moreover
  have "document (run (map Elapse [1000, 2000]) (load example_page)) = document example_page"
    by (rule T [THEN c2, THEN c2, THEN c2, THEN conjunct1])
  moreover
  have "storage (run [Elapse 3000] (load example_page)) = storage example_page"
    by (rule T [THEN c2, THEN c2, THEN c2, THEN c2, THEN c2, THEN conjunct1])
  moreover
  have "map_option (\<lambda>st. st ''color'') (style_of (run [Elapse 3000] (load example_page)) 1)
      = map_option (\<lambda>st. st ''color'') (style_of example_page 1)"
    by (rule T [THEN c2, THEN c2, THEN c2, THEN c2, THEN c2, THEN c2, THEN c2, THEN conjunct1,
          rule_format, OF k])
  ultimately show ?thesis
    unfolding h d st c by (intro conjI)
qed

section \<open>Order and determinism\<close>

text \<open>
  C8. A timer task touches the element its closure holds and no other element, and leaves
  the document, the listeners, the queue, the clock, the storage and the network log alone.
  Any two tasks commute, so running a batch of tasks in any order gives the same page, and
  whichever order the due timers are run in, the page after the wait is the one the event
  loop produces.
\<close>

theorem deferred_actions_commute:
  "(\<forall>n. n \<noteq> target (action tm) \<longrightarrow> heap (run_timer tm p) n = heap p n) \<and>
   document (run_timer tm p) = document p \<and>
   timers (run_timer tm p) = timers p \<and>
   run_timer a (run_timer b p) = run_timer b (run_timer a p) \<and>
   (mset ts = mset ts' \<longrightarrow> fold run_timer ts p = fold run_timer ts' p) \<and>
   (mset ts = mset (filter (\<lambda>tm. due tm \<le> clock p + d) (timers p)) \<longrightarrow>
      fold run_timer ts
        (p\<lparr>timers := filter (\<lambda>tm. \<not> due tm \<le> clock p + d) (timers p), clock := clock p + d\<rparr>)
      = elapse d p)"
proof -
  have own: "heap (run_timer tm p) n = heap p n" if "n \<noteq> target (action tm)" for n
    using that by (simp add: heap_run_timer)
  have loop: "fold run_timer ts
        (p\<lparr>timers := filter (\<lambda>tm. \<not> due tm \<le> clock p + d) (timers p), clock := clock p + d\<rparr>)
      = elapse d p"
    if "mset ts = mset (filter (\<lambda>tm. due tm \<le> clock p + d) (timers p))"
  proof -
    have "mset ts = mset (sort_key due (filter (\<lambda>tm. due tm \<le> clock p + d) (timers p)))"
      using that by simp
    then show ?thesis
      unfolding elapse_def Let_def by (rule fold_run_timer_permute)
  qed
  show ?thesis
    using own loop run_timer_commute [of a b p] fold_run_timer_permute [of ts ts' p]
    by simp
qed

theorem deferred_actions_commute_witness:
  "heap (run_timer \<lparr>due = 3000, action = FadeOut 0\<rparr> example_page) 1 = heap example_page 1 \<and>
   fold run_timer [\<lparr>due = 3000, action = FadeOut 0\<rparr>, \<lparr>due = 3000, action = FadeOut 1\<rparr>]
     example_page =
   fold run_timer [\<lparr>due = 3000, action = FadeOut 1\<rparr>, \<lparr>due = 3000, action = FadeOut 0\<rparr>]
     example_page \<and>
   fold run_timer [\<lparr>due = 3000, action = FadeOut 1\<rparr>, \<lparr>due = 3000, action = FadeOut 0\<rparr>]
     ((load example_page)\<lparr>timers := [], clock := 3000\<rparr>) =
   elapse 3000 (load example_page)"
proof -
  let ?t0 = "\<lparr>due = 3000, action = FadeOut 0\<rparr>"
  let ?t1 = "\<lparr>due = 3000, action = FadeOut 1\<rparr>"
  have l: "listeners example_page = []" and c: "clock example_page = 0"
    and t: "timers example_page = []"
    by (simp_all add: example_page_def)
  have f: "flashes example_page = [0, 1]"
    by (simp add: flashes_def querySelectorAll_def example_page_def)
  have tl: "timers (load example_page) = [?t0, ?t1]" and cl: "clock (load example_page) = 0"
    by (simp_all add: load_eq [OF l] f c t fade_timers_def)
  have n: "(1::nat) \<noteq> target (action ?t0)"
    by simp
  have m: "mset [?t0, ?t1] = mset [?t1, ?t0]"
    by simp
  have m': "mset [?t1, ?t0] =
      mset (filter (\<lambda>tm. due tm \<le> clock (load example_page) + 3000) (timers (load example_page)))"
    by (simp add: tl c)
  have r: "(load example_page)\<lparr>timers :=
        filter (\<lambda>tm. \<not> due tm \<le> clock (load example_page) + 3000) (timers (load example_page)),
      clock := clock (load example_page) + 3000\<rparr> =
      (load example_page)\<lparr>timers := [], clock := 3000\<rparr>"
    by (simp add: tl c)
  note c2 = conjunct2
  have "heap (run_timer ?t0 example_page) 1 = heap example_page 1"
    by (rule deferred_actions_commute [THEN conjunct1, rule_format, OF n])
  moreover
  have "fold run_timer [?t0, ?t1] example_page = fold run_timer [?t1, ?t0] example_page"
    by (rule deferred_actions_commute
        [THEN c2, THEN c2, THEN c2, THEN c2, THEN conjunct1, rule_format, OF m])
  moreover
  have "fold run_timer [?t1, ?t0] ((load example_page)\<lparr>timers := [], clock := 3000\<rparr>) =
      elapse 3000 (load example_page)"
    using deferred_actions_commute
        [THEN c2, THEN c2, THEN c2, THEN c2, THEN c2, rule_format, OF m']
    unfolding r .
  ultimately show ?thesis
    by (intro conjI)
qed

text \<open>
  C10. Two runs over the same initial document end in the same elements. Take two pages
  that hold the same element objects and the same document and have no timers pending; they
  may differ in everything else (the clock, the storage, what was sent). Load each and let
  time pass, for both less than 3000 ms or for both at least 3000 ms. Then the element
  objects of the two pages are equal, so every opacity is the same and the same elements
  have changed.
\<close>

theorem same_document_same_result:
  assumes "document p = document p'" and "heap p = heap p'"
    and "timers p = []" and "timers p' = []"
    and "d < 3000 \<longleftrightarrow> d' < 3000"
  shows "heap (elapse d (load p)) = heap (elapse d' (load p')) \<and>
         opacity (elapse d (load p)) = opacity (elapse d' (load p')) \<and>
         {n. heap (elapse d (load p)) n \<noteq> heap p n} =
           {n. heap (elapse d' (load p')) n \<noteq> heap p' n} \<and>
         document (elapse d (load p)) = document (elapse d' (load p'))"
proof -
  have fl: "flashes p = flashes p'"
    using assms(1,2) by (intro flashes_cong) simp_all
  have h: "heap (elapse d (load p)) = heap (elapse d' (load p'))"
  proof
    fix n
    show "heap (elapse d (load p)) n = heap (elapse d' (load p')) n"
      using assms(5) by (auto simp: heap_elapse_load assms(2,3,4) fl)
  qed
  then have "opacity (elapse d (load p)) = opacity (elapse d' (load p'))"
    by (intro ext) (simp add: opacity_def)
  with h show ?thesis
    using assms(1,2) by simp
qed

theorem same_document_same_result_witness:
  "heap (elapse 3000 (load example_page)) = heap (elapse 4500 (load later_page)) \<and>
   opacity (elapse 3000 (load example_page)) = opacity (elapse 4500 (load later_page)) \<and>
   clock example_page \<noteq> clock later_page"
proof -
  have "document example_page = document later_page" "heap example_page = heap later_page"
    "timers example_page = []" "timers later_page = []"
    by (simp_all add: later_page_def example_page_def)
  moreover have "(3000::nat) < 3000 \<longleftrightarrow> (4500::nat) < 3000"
    by simp
  ultimately have "heap (elapse 3000 (load example_page)) = heap (elapse 4500 (load later_page)) \<and>
      opacity (elapse 3000 (load example_page)) = opacity (elapse 4500 (load later_page)) \<and>
      {n. heap (elapse 3000 (load example_page)) n \<noteq> heap example_page n} =
        {n. heap (elapse 4500 (load later_page)) n \<noteq> heap later_page n} \<and>
      document (elapse 3000 (load example_page)) = document (elapse 4500 (load later_page))"
    by (rule same_document_same_result)
  moreover have "clock example_page \<noteq> clock later_page"
    by (simp add: later_page_def example_page_def)
  ultimately show ?thesis
    by (intro conjI) (erule conjunct1, erule conjunct2 [THEN conjunct1], assumption)
qed

end
